theory Spec2Isabelle
  imports Main "HOL-Library.Signed_Division" "HOL-Library.Sublist" "HOL-Library.Word"
begin

section \<open>JavaScript strings and numbers\<close>

text \<open>
  A JavaScript string is a sequence of UTF-16 code units: a list of 16-bit words.
  \<open>js\<close> writes the string whose code units are those of a literal, and
  \<open>plus_sign\<close> is the code unit of "+". A JavaScript number is an integer or
  \<open>NaN\<close>: the only numbers the program computes are small sums of digits, string
  lengths and indices.
\<close>

type_synonym code_unit = "16 word"

type_synonym jsstring = "code_unit list"

definition js :: "string \<Rightarrow> jsstring" where
  "js s = map of_char s"

abbreviation plus_sign :: code_unit where
  "plus_sign \<equiv> 0x2B"

datatype number = NaN | Num int

fun num_add :: "number \<Rightarrow> number \<Rightarrow> number" where
  "num_add (Num a) (Num b) = Num (a + b)"
| "num_add _ _ = NaN"

fun num_sub :: "number \<Rightarrow> number \<Rightarrow> number" where
  "num_sub (Num a) (Num b) = Num (a - b)"
| "num_sub _ _ = NaN"

fun num_mul :: "number \<Rightarrow> number \<Rightarrow> number" where
  "num_mul (Num a) (Num b) = Num (a * b)"
| "num_mul _ _ = NaN"

text \<open>The operator \<open>%\<close> truncates towards zero; a zero divisor gives \<open>NaN\<close>.\<close>

fun num_rem :: "number \<Rightarrow> number \<Rightarrow> number" where
  "num_rem (Num a) (Num b) = (if b = 0 then NaN else Num (a smod b))"
| "num_rem _ _ = NaN"

text \<open>Strict equality \<open>===\<close> on numbers: \<open>NaN\<close> equals nothing, not even itself.\<close>

fun strict_eq :: "number \<Rightarrow> number \<Rightarrow> bool" where
  "strict_eq (Num a) (Num b) = (a = b)"
| "strict_eq _ _ = False"

text \<open>\<open>s[i]\<close>: the code unit at index \<open>i\<close>, or \<open>undefined\<close> out of range.\<close>

definition index :: "jsstring \<Rightarrow> nat \<Rightarrow> code_unit option" where
  "index s i = (if i < length s then Some (s ! i) else None)"

text \<open>
  \<open>parseInt\<close> on the result of \<open>s[i]\<close>: a one-unit string is a number exactly when the
  unit is a decimal digit (a sign or a blank alone gives \<open>NaN\<close>), and \<open>undefined\<close> gives
  \<open>NaN\<close>.
\<close>

definition isDigit :: "code_unit \<Rightarrow> bool" where
  "isDigit c = (48 \<le> uint c \<and> uint c \<le> 57)"

definition parseInt :: "code_unit option \<Rightarrow> number" where
  "parseInt x = (case x of
       None \<Rightarrow> NaN
     | Some c \<Rightarrow> if isDigit c then Num (uint c - 48) else NaN)"

text \<open>
  \<open>s.slice(a, b)\<close> and \<open>s.slice(a)\<close>: a negative bound counts from the end, and both
  bounds are clamped to the string.
\<close>

definition slice :: "jsstring \<Rightarrow> int \<Rightarrow> int \<Rightarrow> jsstring" where
  "slice s a b =
     (let n = int (length s);
          from = (if a < 0 then max (n + a) 0 else min a n);
          to = (if b < 0 then max (n + b) 0 else min b n)
      in take (nat (to - from)) (drop (nat from) s))"

definition slice1 :: "jsstring \<Rightarrow> int \<Rightarrow> jsstring" where
  "slice1 s a = slice s a (int (length s))"

definition startsWith :: "jsstring \<Rightarrow> jsstring \<Rightarrow> bool" where
  "startsWith s p = (take (length p) s = p)"

text \<open>\<open>s.indexOf(c, pos)\<close> for a one-unit search string: the first index at or after
  \<open>pos\<close> (clamped to the string) that holds \<open>c\<close>, or \<open>-1\<close>.\<close>

fun indexOf_aux :: "jsstring \<Rightarrow> code_unit \<Rightarrow> nat \<Rightarrow> int" where
  "indexOf_aux [] c i = - 1"
| "indexOf_aux (x # xs) c i = (if x = c then int i else indexOf_aux xs c (Suc i))"

definition indexOf :: "jsstring \<Rightarrow> code_unit \<Rightarrow> int \<Rightarrow> int" where
  "indexOf s c pos =
     (let k = nat (min (max pos 0) (int (length s)))
      in indexOf_aux (drop k s) c k)"

text \<open>\<open>s.replace(/\+$/, "")\<close>: one \<open>+\<close> at the very end of the string is removed.\<close>

definition replace_trailing_plus :: "jsstring \<Rightarrow> jsstring" where
  "replace_trailing_plus s = (if s \<noteq> [] \<and> last s = plus_sign then butlast s else s)"

text \<open>\<open>s.replace(pat, rep)\<close> with a string pattern: the first occurrence is replaced.\<close>

fun replace_first :: "jsstring \<Rightarrow> jsstring \<Rightarrow> jsstring \<Rightarrow> jsstring" where
  "replace_first [] pat rep = (if pat = [] then rep else [])"
| "replace_first (x # xs) pat rep =
     (if startsWith (x # xs) pat then rep @ drop (length pat) (x # xs)
      else x # replace_first xs pat rep)"

text \<open>
  \<open>s.trim()\<close>: white space and line terminators are removed at both ends. These
  are the code units of tab, line feed, vertical tab, form feed, carriage return, space,
  no-break space, U+1680, U+2000 to U+200A, U+2028, U+2029, U+202F, U+205F, U+3000
  and U+FEFF.
\<close>

definition isWhiteSpace :: "code_unit \<Rightarrow> bool" where
  "isWhiteSpace c =
     (c \<in> {0x0009, 0x000A, 0x000B, 0x000C, 0x000D, 0x0020, 0x00A0, 0x1680,
           0x2000, 0x2001, 0x2002, 0x2003, 0x2004, 0x2005, 0x2006, 0x2007, 0x2008, 0x2009,
           0x200A, 0x2028, 0x2029, 0x202F, 0x205F, 0x3000, 0xFEFF})"

definition trim :: "jsstring \<Rightarrow> jsstring" where
  "trim s = rev (dropWhile isWhiteSpace (rev (dropWhile isWhiteSpace s)))"

section \<open>The table of application identifiers and the markers\<close>

record CodePart =
  part_name :: jsstring
  part_description :: jsstring
  part_code :: jsstring
  part_length :: "int option"

record ParsedCodePart =
  code :: jsstring
  "value" :: jsstring
  name :: jsstring
  description :: jsstring

datatype ParsedResult = Null | Str jsstring | Parts "ParsedCodePart list"

definition CODE_PARTS :: "CodePart list" where
  "CODE_PARTS =
    [\<lparr>part_name = js ''Global Trade Item Number'', part_description = js ''GTIN'',
      part_code = js ''01'', part_length = Some 16\<rparr>,
     \<lparr>part_name = js ''Batch or lot number'', part_description = js ''LOTE'',
      part_code = js ''10'', part_length = None\<rparr>,
     \<lparr>part_name = js ''Production date (YYMMDD)'',
      part_description = js ''FECHA DE PRODUCCI'' @ [0xD3] @ js ''N'',
      part_code = js ''11'', part_length = Some 8\<rparr>,
     \<lparr>part_name = js ''Expiration date (YYMMDD)'', part_description = js ''FECHA DE CACUCIDAD'',
      part_code = js ''17'', part_length = Some 8\<rparr>,
     \<lparr>part_name = js ''Serial number'', part_description = js ''SERIAL'',
      part_code = js ''21'', part_length = None\<rparr>,
     \<lparr>part_name = js ''National product code'', part_description = js ''NPC'',
      part_code = js ''712'', part_length = None\<rparr>]"

definition DATAMATRIX_FNC1 :: "jsstring list" where
  "DATAMATRIX_FNC1 = [js '']C1'', js '']e0'', js '']d1'', js '']d2'', js '']q3'']"

definition QR_FNC1 :: "jsstring list" where
  "QR_FNC1 = [js '']Q1'', js '']Q2'', js '']Q3'', js '']Q4'']"

definition EAN_FNC1 :: "jsstring list" where
  "EAN_FNC1 = [js '']E0'']"

section \<open>Check digits and symbology detection\<close>

text \<open>The \<open>for\<close> loop of \<open>calculateCheckDigit\<close>, with its index and its running sum.\<close>

function calculateCheckDigit_loop :: "jsstring \<Rightarrow> nat \<Rightarrow> number \<Rightarrow> number" where
  "calculateCheckDigit_loop str i sm =
     (if i < length str
      then calculateCheckDigit_loop str (i + 1)
             (num_add sm
                (num_mul (parseInt (index str i)) (Num (if i mod 2 = 0 then 1 else 3))))
      else sm)"
  by pat_completeness auto
termination
  by (relation "measure (\<lambda>(str, i, sm). length str - i)") auto

declare calculateCheckDigit_loop.simps [simp del]

definition calculateCheckDigit :: "jsstring \<Rightarrow> number" where
  "calculateCheckDigit str =
     num_rem (num_sub (Num 10) (num_rem (calculateCheckDigit_loop str 0 (Num 0)) (Num 10)))
       (Num 10)"

definition isValidEan13 :: "jsstring \<Rightarrow> bool" where
  "isValidEan13 code0 =
     (if slice code0 0 3 \<notin> set EAN_FNC1 then False
      else let str = slice1 code0 3 in
        if length str \<noteq> 13 then False
        else strict_eq (calculateCheckDigit (slice str 0 12)) (parseInt (index str 12)))"

definition isValidEan14 :: "jsstring \<Rightarrow> bool" where
  "isValidEan14 code0 =
     (if slice code0 0 3 \<notin> set EAN_FNC1 then False
      else let str = slice1 code0 3 in
        if length str \<noteq> 14 then False
        else strict_eq (calculateCheckDigit (slice str 0 13)) (parseInt (index str 13)))"

definition isValidDataMatrix :: "jsstring \<Rightarrow> bool" where
  "isValidDataMatrix code0 = (slice code0 0 3 \<in> set DATAMATRIX_FNC1)"

text \<open>\<open>detectType\<close> returns a string or, when no branch returns, \<open>undefined\<close>.\<close>

definition detectType :: "jsstring \<Rightarrow> jsstring option" where
  "detectType code0 =
     (if isValidEan13 code0 then Some (js ''EAN-13'')
      else if isValidEan14 code0 then Some (js ''EAN-14'')
      else if isValidDataMatrix code0 then Some (js ''DataMatrix'')
      else if startsWith code0 (js '']Q'') then Some (js ''QR'')
      else None)"

section \<open>The tokenizer \<open>getParsedDataMatrix\<close>\<close>

datatype error = Error jsstring

definition maxIterations :: nat where
  "maxIterations = 1000"

text \<open>The \<open>for\<close> loop over the table with its \<open>break\<close>: the first entry whose code
  starts the string.\<close>

definition find_part :: "jsstring \<Rightarrow> CodePart option" where
  "find_part s = find (\<lambda>part. startsWith s (part_code part)) CODE_PARTS"

text \<open>
  One pass through the body of the \<open>while\<close> loop of \<open>getParsedDataMatrix\<close>: the
  field that is pushed, the computed \<open>length\<close>, and the string that is left.
\<close>

definition getParsedDataMatrix_step :: "jsstring \<Rightarrow> ParsedCodePart \<times> int \<times> jsstring" where
  "getParsedDataMatrix_step s =
     (case find_part s of
        Some currentPart \<Rightarrow>
          (let codeLength = int (length (part_code currentPart));
               len = (case part_length currentPart of
                        None \<Rightarrow>
                          (let nextPlus = indexOf s plus_sign codeLength
                           in if nextPlus = - 1 then int (length s) else nextPlus + 1)
                      | Some l \<Rightarrow> codeLength + l - int (length (part_code currentPart)));
               v = replace_trailing_plus (slice s codeLength len)
           in (\<lparr>code = part_code currentPart, value = v, name = part_name currentPart,
                 description = part_description currentPart\<rparr>, len, slice1 s len))
      | None \<Rightarrow>
          (let unknownCode = slice s 0 2;
               nextPlus = indexOf s plus_sign 2;
               len = (if nextPlus = - 1 then int (length s) else nextPlus + 1);
               v = replace_trailing_plus (slice s 2 len)
           in (\<lparr>code = unknownCode, value = v, name = js ''Unknown'',
                 description = js ''Unknown''\<rparr>, len, slice1 s len)))"

text \<open>
  The \<open>while\<close> loop, which both tokenizers write the same way, over the body that is
  run. Its condition increments \<open>iteration\<close> only when the string is not empty, also on
  the test that fails against the limit.
\<close>

function while_loop ::
  "(jsstring \<Rightarrow> ParsedCodePart \<times> int \<times> jsstring) \<Rightarrow> jsstring \<Rightarrow> ParsedCodePart list \<Rightarrow> nat
     \<Rightarrow> jsstring \<times> ParsedCodePart list \<times> nat" where
  "while_loop body s codeParts iteration =
     (if length s > 0 then
        (if iteration < maxIterations
         then while_loop body (snd (snd (body s))) (codeParts @ [fst (body s)]) (iteration + 1)
         else (s, codeParts, iteration + 1))
      else (s, codeParts, iteration))"
  by pat_completeness auto
termination
  by (relation "measure (\<lambda>(body, s, codeParts, iteration). maxIterations - iteration)") auto

declare while_loop.simps [simp del]

text \<open>The test after the loop, on the string, the fields and the counter it leaves.\<close>

definition after_loop :: "jsstring \<times> ParsedCodePart list \<times> nat \<Rightarrow> error + ParsedCodePart list" where
  "after_loop r =
     (case r of (s, codeParts, iteration) \<Rightarrow>
        if iteration \<ge> maxIterations then Inl (Error (js ''Maximum iteration limit reached.''))
        else Inr codeParts)"

definition getParsedDataMatrix :: "jsstring \<Rightarrow> error + ParsedCodePart list" where
  "getParsedDataMatrix code0 =
     after_loop (while_loop getParsedDataMatrix_step (slice1 code0 3) [] 0)"

section \<open>The tokenizer \<open>parseDataMatrix\<close> of the other version\<close>

text \<open>
  The body of its loop. \<open>match?.name || "Unknown"\<close> also replaces an empty name, and
  \<open>match.length ?? str.indexOf("+", codeLength)\<close> is the fixed length when there is one.
\<close>

definition parseDataMatrix_step :: "jsstring \<Rightarrow> ParsedCodePart \<times> int \<times> jsstring" where
  "parseDataMatrix_step s =
     (let match = find_part s;
          codeLength = (case match of Some m \<Rightarrow> int (length (part_code m)) | None \<Rightarrow> 2);
          len0 = (case match of
                    Some m \<Rightarrow>
                      (case part_length m of
                         Some l \<Rightarrow> l
                       | None \<Rightarrow> indexOf s plus_sign codeLength)
                  | None \<Rightarrow> indexOf s plus_sign 2);
          len = (if len0 = - 1 then int (length s) else len0 + 1);
          raw = slice s 0 len;
          c = slice raw 0 codeLength;
          v = replace_trailing_plus (slice1 raw codeLength)
      in (\<lparr>code = c, value = v,
            name = (case match of
                      Some m \<Rightarrow> if part_name m = [] then js ''Unknown'' else part_name m
                    | None \<Rightarrow> js ''Unknown''),
            description = (case match of
                      Some m \<Rightarrow>
                        if part_description m = [] then js ''Unknown'' else part_description m
                    | None \<Rightarrow> js ''Unknown'')\<rparr>, len, slice1 s len))"

definition parseDataMatrix :: "jsstring \<Rightarrow> error + ParsedCodePart list" where
  "parseDataMatrix code0 =
     after_loop (while_loop parseDataMatrix_step (slice1 code0 3) [] 0)"

section \<open>The result assembler and the entry point\<close>

definition createCodeDataMatrix :: "ParsedCodePart list \<Rightarrow> ParsedCodePart list" where
  "createCodeDataMatrix parts =
     map (\<lambda>part.
            let codePart = find (\<lambda>cp. part_code cp = code part) CODE_PARTS
            in \<lparr>code = code part, value = value part,
                 name = (case codePart of Some cp \<Rightarrow> part_name cp | None \<Rightarrow> js ''Unknown''),
                 description =
                   (case codePart of Some cp \<Rightarrow> part_description cp | None \<Rightarrow> js ''Unknown'')\<rparr>)
         parts"

definition parseEan13 :: "jsstring \<Rightarrow> jsstring" where
  "parseEan13 code0 = replace_first code0 (js '']E0'') []"

definition parseEan14 :: "jsstring \<Rightarrow> jsstring" where
  "parseEan14 code0 = replace_first code0 (js '']E0'') []"

text \<open>
  The state of one \<open>useCodeParser\<close> instance. Of the timer only whether one has been
  scheduled is kept.
\<close>

record session =
  parsedResult :: ParsedResult
  buffer :: jsstring
  bufferTimeout :: bool
  isQr :: bool

text \<open>\<open>getParsedCode\<close> returns its result, or the error thrown, and the state it leaves.\<close>

definition getParsedCode :: "session \<Rightarrow> jsstring \<Rightarrow> (error + ParsedResult) \<times> session" where
  "getParsedCode st code0 =
     (let st1 = st\<lparr>isQr := False\<rparr>;
          t = detectType code0
      in if t = Some (js ''EAN-13'') then (Inr (Str (parseEan13 code0)), st1)
         else if t = Some (js ''EAN-14'') then (Inr (Str (parseEan14 code0)), st1)
         else if t = Some (js ''DataMatrix'') then
           (case getParsedDataMatrix code0 of
              Inl e \<Rightarrow> (Inl e, st1)
            | Inr parts \<Rightarrow> (Inr (Parts (createCodeDataMatrix parts)), st1))
         else if t = Some (js ''QR'') then (Inr (Str (slice1 code0 3)), st1\<lparr>isQr := True\<rparr>)
         else (Inr (Str code0), st1))"

definition handleParse :: "session \<Rightarrow> (error + ParsedResult) \<times> session" where
  "handleParse st =
     (if trim (buffer st) = [] then (Inr Null, st)
      else case getParsedCode st (buffer st) of
             (Inl e, st1) \<Rightarrow> (Inl e, st1)
           | (Inr result, st1) \<Rightarrow> (Inr result, st1\<lparr>parsedResult := result\<rparr>))"

text \<open>
  How the promise of \<open>handleInput\<close> is settled: rejected with a string, rejected with
  a thrown error, or resolved with a result.
\<close>

datatype settlement = Resolved ParsedResult | Rejected jsstring | RejectedError error

text \<open>
  \<open>handleInput\<close> up to the point where it returns: either the promise is already
  settled, or the buffer is stored and the timer scheduled.
\<close>

definition handleInput :: "session \<Rightarrow> jsstring \<Rightarrow> settlement option \<times> session" where
  "handleInput st newInput =
     (if trim newInput = [] then (Some (Rejected (js ''Input inv'' @ [0xE1] @ js ''lido'')), st)
      else (None, st\<lparr>buffer := newInput, bufferTimeout := True\<rparr>))"

text \<open>The callback that runs when the timer fires, 300 ms after the last input.\<close>

definition timer_callback :: "session \<Rightarrow> settlement \<times> session" where
  "timer_callback st =
     (case handleParse st of
        (Inl e, st1) \<Rightarrow> (RejectedError e, st1)
      | (Inr result, st1) \<Rightarrow> (Resolved result, st1))"

section \<open>Running the loop body without a limit\<close>

text \<open>
  The fields pushed and the string left by at most \<open>n\<close> passes of a loop body, and the
  loop without its iteration limit, which need not return.
\<close>

fun fields_upto ::
  "(jsstring \<Rightarrow> ParsedCodePart \<times> int \<times> jsstring) \<Rightarrow> nat \<Rightarrow> jsstring \<Rightarrow> ParsedCodePart list" where
  "fields_upto body 0 s = []"
| "fields_upto body (Suc n) s =
     (if length s > 0 then fst (body s) # fields_upto body n (snd (snd (body s))) else [])"

fun rest_upto ::
  "(jsstring \<Rightarrow> ParsedCodePart \<times> int \<times> jsstring) \<Rightarrow> nat \<Rightarrow> jsstring \<Rightarrow> jsstring" where
  "rest_upto body 0 s = s"
| "rest_upto body (Suc n) s =
     (if length s > 0 then rest_upto body n (snd (snd (body s))) else s)"

partial_function (option) unbounded_loop ::
  "(jsstring \<Rightarrow> ParsedCodePart \<times> int \<times> jsstring) \<Rightarrow> jsstring \<Rightarrow> ParsedCodePart list
     \<Rightarrow> ParsedCodePart list option" where
  "unbounded_loop body s codeParts =
     (if length s > 0
      then unbounded_loop body (snd (snd (body s))) (codeParts @ [fst (body s)])
      else Some codeParts)"

declare unbounded_loop.simps [code]

section \<open>The check digit as the specification words it\<close>

text \<open>
  The value of a digit character, the weights 1, 3, 1, 3, ... from index 0, the weighted
  sum of a digit string whose first character has index \<open>i\<close>, and the check digit
  computed from the sum. \<open>digit_char\<close> is the character a number from 0 to 9 becomes
  when it is appended to a string.
\<close>

definition digit_value :: "code_unit \<Rightarrow> int" where
  "digit_value c = uint c - 48"

definition spec_weight :: "nat \<Rightarrow> int" where
  "spec_weight i = (if even i then 1 else 3)"

definition spec_weighted_sum_from :: "nat \<Rightarrow> jsstring \<Rightarrow> int" where
  "spec_weighted_sum_from i d = (\<Sum>(k, c)\<leftarrow>enumerate i d. digit_value c * spec_weight k)"

definition spec_check_digit :: "jsstring \<Rightarrow> int" where
  "spec_check_digit d = (10 - spec_weighted_sum_from 0 d mod 10) mod 10"


definition digit_char :: "int \<Rightarrow> code_unit" where
  "digit_char k = word_of_int (48 + k)"


text \<open>A loop body makes progress when it leaves a shorter string on every non-empty one.\<close>

definition progress :: "(jsstring \<Rightarrow> ParsedCodePart \<times> int \<times> jsstring) \<Rightarrow> bool" where
  "progress body = (\<forall>s. s \<noteq> [] \<longrightarrow> length (snd (snd (body s))) < length s)"


section \<open>Facts about the string operations and the table\<close>

lemma js_simps: "js [] = []" "js (c # cs) = of_char c # js cs"
  by (simp_all add: js_def)

lemma length_js [simp]: "length (js s) = length s"
  by (simp add: js_def)

lemma js_eq_Nil [simp]: "(js s = []) = (s = [])"
  by (simp add: js_def)

lemma unat_of_char: "unat (of_char c :: code_unit) = of_char c"
proof -
  have "(of_char c :: code_unit) = of_nat (of_char c)"
    by (simp add: of_nat_of_char)
  moreover have "(of_char c :: nat) < 65536"
    by (rule less_trans [OF nat_of_char_less_256]) simp
  ultimately show ?thesis by (simp add: unat_of_nat)
qed

lemma js_inject [simp]: "(js a = js b) = (a = b)"
proof -
  have "inj (of_char :: char \<Rightarrow> code_unit)"
  proof (rule injI)
    fix c c' :: char
    assume "(of_char c :: code_unit) = of_char c'"
    then have "unat (of_char c :: code_unit) = unat (of_char c' :: code_unit)" by simp
    then show "c = c'" by (simp add: unat_of_char)
  qed
  then show ?thesis unfolding js_def by (rule inj_map_eq_map)
qed

lemma prefix_js [simp]: "prefix (js a) (js b) = prefix a b"
proof
  assume "prefix (js a) (js b)"
  then obtain zs where "js b = js a @ zs" by (auto simp add: prefix_def)
  then have "take (length a) (js b) = js a" by simp
  then have "js (take (length a) b) = js a" by (simp add: js_def take_map)
  then have "take (length a) b = a" by simp
  then show "prefix a b" by (metis take_is_prefix)
next
  assume "prefix a b"
  then show "prefix (js a) (js b)" unfolding js_def by (rule map_mono_prefix)
qed

lemma slice_nonneg: "0 \<le> a \<Longrightarrow> 0 \<le> b \<Longrightarrow> slice s a b = drop (nat a) (take (nat b) s)"
  by (auto simp add: slice_def Let_def drop_take min_def nat_diff_distrib' not_le)

lemma slice1_nonneg: "0 \<le> a \<Longrightarrow> slice1 s a = drop (nat a) s"
  by (simp add: slice1_def slice_nonneg)

lemma indexOf_aux_takeWhile:
  "indexOf_aux xs c i =
     (if c \<in> set xs then int (i + length (takeWhile (\<lambda>x. x \<noteq> c) xs)) else - 1)"
  by (induction xs arbitrary: i) auto

lemma indexOf_nonneg:
  "0 \<le> pos \<Longrightarrow> indexOf s c pos =
     (if c \<in> set (drop (nat pos) s)
      then pos + int (length (takeWhile (\<lambda>x. x \<noteq> c) (drop (nat pos) s))) else - 1)"
  by (auto simp add: indexOf_def Let_def indexOf_aux_takeWhile min_def not_le)

lemma find_part_Some:
  "find_part s = Some p \<Longrightarrow> p \<in> set CODE_PARTS \<and> startsWith s (part_code p)"
  by (auto simp add: find_part_def find_Some_iff)

lemma CODE_PARTS_facts:
  "p \<in> set CODE_PARTS \<Longrightarrow>
     2 \<le> length (part_code p) \<and> part_name p \<noteq> [] \<and> part_description p \<noteq> [] \<and>
     (part_length p = None \<or> part_length p = Some 8 \<or> part_length p = Some 16)"
  by (auto simp add: CODE_PARTS_def js_simps)

lemma takeWhile_length_less:
  "c \<in> set xs \<Longrightarrow> length (takeWhile (\<lambda>x. x \<noteq> c) xs) < length xs"
  by (induction xs) auto

lemma indexOf_range:
  "0 \<le> pos \<Longrightarrow>
     indexOf s c pos = - 1 \<or> (pos \<le> indexOf s c pos \<and> indexOf s c pos < int (length s))"
proof (cases "c \<in> set (drop (nat pos) s)")
  case False
  assume "0 \<le> pos"
  with False show ?thesis by (simp add: indexOf_nonneg)
next
  case True
  assume pos: "0 \<le> pos"
  from takeWhile_length_less [OF True] pos True show ?thesis
    by (simp add: indexOf_nonneg)
qed

section \<open>The loop with its limit, and the bounded runs of its body\<close>

lemma fields_upto_Nil [simp]: "fields_upto body n [] = []"
  by (cases n) simp_all

lemma rest_upto_Nil [simp]: "rest_upto body n [] = []"
  by (cases n) simp_all

lemma length_fields_upto: "length (fields_upto body n s) \<le> n"
  by (induction n arbitrary: s) simp_all

lemma rest_upto_empty_Suc:
  "rest_upto body n s = [] \<Longrightarrow>
     rest_upto body (Suc n) s = [] \<and> fields_upto body (Suc n) s = fields_upto body n s"
proof (induction n arbitrary: s)
  case 0
  then show ?case by simp
next
  case (Suc n)
  show ?case
  proof (cases "s = []")
    case True
    then show ?thesis by simp
  next
    case False
    with Suc.prems have "rest_upto body n (snd (snd (body s))) = []" by simp
    from Suc.IH [OF this] False show ?thesis by simp
  qed
qed

lemma while_loop_upto:
  "iteration + k = maxIterations \<Longrightarrow>
     while_loop body s codeParts iteration =
       (rest_upto body k s, codeParts @ fields_upto body k s,
        if rest_upto body k s = [] then iteration + length (fields_upto body k s)
        else maxIterations + 1)"
proof (induction k arbitrary: s codeParts iteration)
  case 0
  then show ?case by (subst while_loop.simps) simp
next
  case (Suc k)
  then have lt: "iteration < maxIterations" and nxt: "(iteration + 1) + k = maxIterations"
    by simp_all
  show ?case
  proof (cases "s = []")
    case True
    then show ?thesis by (subst while_loop.simps) simp
  next
    case False
    have "while_loop body s codeParts iteration =
            while_loop body (snd (snd (body s))) (codeParts @ [fst (body s)]) (iteration + 1)"
      using False lt by (subst while_loop.simps) simp
    also note Suc.IH [OF nxt]
    finally show ?thesis using False by simp
  qed
qed

lemma maxIterations_pos: "maxIterations = Suc (maxIterations - 1)"
  by (simp add: maxIterations_def)

lemma fields_upto_Suc_nonempty:
  "rest_upto body n s \<noteq> [] \<Longrightarrow> length (fields_upto body (Suc n) s) = Suc n"
proof (induction n arbitrary: s)
  case 0
  then show ?case by simp
next
  case (Suc n)
  from Suc.prems have ne: "s \<noteq> []" by (cases "s = []") simp_all
  with Suc.prems have "rest_upto body n (snd (snd (body s))) \<noteq> []" by simp
  from Suc.IH [OF this]
  have "length (fields_upto body (Suc n) (snd (snd (body s)))) = Suc n" .
  moreover have "fields_upto body (Suc (Suc n)) s =
      fst (body s) # fields_upto body (Suc n) (snd (snd (body s)))"
    using ne by (simp del: fields_upto.simps add: fields_upto.simps(2) [of body "Suc n" s])
  ultimately show ?case by (simp del: fields_upto.simps)
qed

lemma after_loop_upto:
  "after_loop (while_loop body s [] 0) =
     (if rest_upto body (maxIterations - 1) s = []
      then Inr (fields_upto body (maxIterations - 1) s)
      else Inl (Error (js ''Maximum iteration limit reached.'')))"
proof -
  define m where "m = maxIterations - 1"
  have m: "maxIterations = Suc m"
    unfolding m_def by (rule maxIterations_pos)
  have "0 + Suc m = maxIterations" using m by simp
  from while_loop_upto [OF this]
  have w: "while_loop body s [] 0 =
       (rest_upto body (Suc m) s, fields_upto body (Suc m) s,
        if rest_upto body (Suc m) s = [] then length (fields_upto body (Suc m) s)
        else maxIterations + 1)"
    by simp
  show ?thesis
  proof (cases "rest_upto body m s = []")
    case True
    from rest_upto_empty_Suc [OF this] True length_fields_upto [of body m s]
    show ?thesis unfolding m_def [symmetric] w after_loop_def m by simp
  next
    case False
    from fields_upto_Suc_nonempty [OF this]
    have len: "length (fields_upto body (Suc m) s) = Suc m" .
    with False show ?thesis unfolding m_def [symmetric] w after_loop_def m by simp
  qed
qed

section \<open>Every pass of the body consumes input\<close>

lemma getParsedDataMatrix_step_len:
  "s \<noteq> [] \<Longrightarrow> 1 \<le> fst (snd (getParsedDataMatrix_step s))"
proof (cases "find_part s")
  case None
  assume "s \<noteq> []"
  from indexOf_range [of 2 s plus_sign] this None show ?thesis
    by (auto simp add: getParsedDataMatrix_step_def Let_def Suc_le_eq)
next
  case (Some p)
  assume ne: "s \<noteq> []"
  from find_part_Some [OF Some] CODE_PARTS_facts [of p]
  have f: "part_length p = None \<or> part_length p = Some 8 \<or> part_length p = Some 16" by simp
  from indexOf_range [of "int (length (part_code p))" s plus_sign] ne f Some show ?thesis
    by (auto simp add: getParsedDataMatrix_step_def Let_def Suc_le_eq)
qed

lemma getParsedDataMatrix_step_rest:
  "snd (snd (getParsedDataMatrix_step s)) = slice1 s (fst (snd (getParsedDataMatrix_step s)))"
  by (simp add: getParsedDataMatrix_step_def Let_def split: option.splits)

lemma parseDataMatrix_step_len:
  "s \<noteq> [] \<Longrightarrow> 1 \<le> fst (snd (parseDataMatrix_step s))"
proof (cases "find_part s")
  case None
  assume "s \<noteq> []"
  from indexOf_range [of 2 s plus_sign] this None show ?thesis
    by (auto simp add: parseDataMatrix_step_def Let_def Suc_le_eq)
next
  case (Some p)
  assume ne: "s \<noteq> []"
  from find_part_Some [OF Some] CODE_PARTS_facts [of p]
  have f: "part_length p = None \<or> part_length p = Some 8 \<or> part_length p = Some 16" by simp
  from indexOf_range [of "int (length (part_code p))" s plus_sign] ne f Some show ?thesis
    by (auto simp add: parseDataMatrix_step_def Let_def Suc_le_eq)
qed

lemma parseDataMatrix_step_rest:
  "snd (snd (parseDataMatrix_step s)) = slice1 s (fst (snd (parseDataMatrix_step s)))"
  by (simp add: parseDataMatrix_step_def Let_def)

lemma slice1_shorter: "s \<noteq> [] \<Longrightarrow> 1 \<le> n \<Longrightarrow> length (slice1 s n) < length s"
  by (simp add: slice1_nonneg)

lemma progress_getParsedDataMatrix_step: "progress getParsedDataMatrix_step"
  unfolding progress_def
  by (simp add: getParsedDataMatrix_step_rest slice1_shorter getParsedDataMatrix_step_len)

lemma progress_parseDataMatrix_step: "progress parseDataMatrix_step"
  unfolding progress_def
  by (simp add: parseDataMatrix_step_rest slice1_shorter parseDataMatrix_step_len)

lemma unbounded_loop_fields:
  "progress body \<Longrightarrow> length s \<le> n \<Longrightarrow>
     unbounded_loop body s codeParts = Some (codeParts @ fields_upto body n s)"
proof (induction n arbitrary: s codeParts)
  case 0
  then show ?case by (subst unbounded_loop.simps) simp
next
  case (Suc n)
  show ?case
  proof (cases "s = []")
    case True
    then show ?thesis by (subst unbounded_loop.simps) simp
  next
    case False
    with Suc.prems have "length (snd (snd (body s))) \<le> n"
      by (auto simp add: progress_def)
    from Suc.IH [OF Suc.prems(1) this, of "codeParts @ [fst (body s)]"] False
    show ?thesis by (subst unbounded_loop.simps) simp
  qed
qed

lemma rest_upto_fields:
  "progress body \<Longrightarrow> length s \<le> m \<Longrightarrow>
     (rest_upto body n s = []) = (length (fields_upto body m s) \<le> n)"
proof (induction n arbitrary: s m)
  case 0
  then show ?case by (cases m) auto
next
  case (Suc n)
  show ?case
  proof (cases "s = []")
    case True
    then show ?thesis by simp
  next
    case False
    with Suc.prems obtain m' where m: "m = Suc m'" by (cases m) auto
    from False Suc.prems m have "length (snd (snd (body s))) \<le> m'"
      by (auto simp add: progress_def)
    from Suc.IH [OF Suc.prems(1) this] False m show ?thesis by simp
  qed
qed

section \<open>The iteration limit\<close>

lemma step_empty_lot:
  "getParsedDataMatrix_step (js ''10+'' @ t) =
     (\<lparr>code = js ''10'', value = [], name = js ''Batch or lot number'', description = js ''LOTE''\<rparr>,
      3, t)"
  by (simp add: getParsedDataMatrix_step_def find_part_def CODE_PARTS_def startsWith_def
      indexOf_def Let_def slice_nonneg slice1_nonneg replace_trailing_plus_def js_simps)

lemma rest_upto_empty_lots:
  "rest_upto getParsedDataMatrix_step n (concat (replicate n (js ''10+'')) @ t) = t"
  by (induction n) (simp_all add: step_empty_lot del: append.simps)

lemma fields_upto_empty_lots:
  "fields_upto getParsedDataMatrix_step n (concat (replicate n (js ''10+'')) @ t) =
     replicate n \<lparr>code = js ''10'', value = [], name = js ''Batch or lot number'',
                  description = js ''LOTE''\<rparr>"
  by (induction n) (simp_all add: step_empty_lot del: append.simps)

lemma maxIterations_pred: "maxIterations - 1 = 999"
  by (simp add: maxIterations_def)

text \<open>
  A payload of exactly 1000 empty lot fields: the loop consumes all of it and leaves the
  counter at 1000, not beyond, and the test after the loop raises the error all the same.
\<close>

theorem limit_counterexample:
  "while_loop getParsedDataMatrix_step (slice1 (js '']d2'' @ concat (replicate 1000 (js ''10+''))) 3) [] 0
     = ([], replicate 1000 \<lparr>code = js ''10'', value = [], name = js ''Batch or lot number'',
                             description = js ''LOTE''\<rparr>, 1000)
   \<and> getParsedDataMatrix (js '']d2'' @ concat (replicate 1000 (js ''10+''))) =
       Inl (Error (js ''Maximum iteration limit reached.''))"
proof -
  let ?p = "concat (replicate 1000 (js ''10+''))"
  have p: "slice1 (js '']d2'' @ ?p) 3 = ?p"
    by (simp add: slice1_nonneg)
  have r: "rest_upto getParsedDataMatrix_step 1000 ?p = []"
    using rest_upto_empty_lots [of 1000 "[]"] by simp
  have f: "fields_upto getParsedDataMatrix_step 1000 ?p =
      replicate 1000 \<lparr>code = js ''10'', value = [], name = js ''Batch or lot number'',
                      description = js ''LOTE''\<rparr>"
    using fields_upto_empty_lots [of 1000 "[]"] by simp
  have "0 + 1000 = maxIterations" by (simp add: maxIterations_def)
  from while_loop_upto [OF this, of getParsedDataMatrix_step ?p "[]"]
  have w: "while_loop getParsedDataMatrix_step ?p [] 0 =
      ([], replicate 1000 \<lparr>code = js ''10'', value = [], name = js ''Batch or lot number'',
                      description = js ''LOTE''\<rparr>, 1000)"
    unfolding r f by simp
  show ?thesis
    unfolding getParsedDataMatrix_def p w by (simp add: after_loop_def maxIterations_def)
qed

text \<open>
  Claim C2, as the code has it: \<open>getParsedDataMatrix\<close> raises
  "Maximum iteration limit reached." exactly when 999 passes of the loop body do not
  consume the payload, that is when the payload needs 1000 passes or more; a payload
  that is consumed within 999 passes returns the fields of these passes.
\<close>

theorem getParsedDataMatrix_limit:
  "getParsedDataMatrix code0 =
     (if rest_upto getParsedDataMatrix_step 999 (slice1 code0 3) = []
      then Inr (fields_upto getParsedDataMatrix_step 999 (slice1 code0 3))
      else Inl (Error (js ''Maximum iteration limit reached.'')))"
  unfolding getParsedDataMatrix_def after_loop_upto maxIterations_pred ..

lemma limit_witness_rest:
  "rest_upto getParsedDataMatrix_step 999 (slice1 (js '']d210AB+21X'') 3) = []"
  by code_simp

lemma limit_witness_fields:
  "fields_upto getParsedDataMatrix_step 999 (slice1 (js '']d210AB+21X'') 3) =
     [\<lparr>code = js ''10'', value = js ''AB'', name = js ''Batch or lot number'', description = js ''LOTE''\<rparr>,
      \<lparr>code = js ''21'', value = js ''X'', name = js ''Serial number'', description = js ''SERIAL''\<rparr>]"
  by code_simp

theorem getParsedDataMatrix_limit_witness:
  "rest_upto getParsedDataMatrix_step 999 (slice1 (js '']d210AB+21X'') 3) = [] \<and>
   getParsedDataMatrix (js '']d210AB+21X'') =
     Inr [\<lparr>code = js ''10'', value = js ''AB'', name = js ''Batch or lot number'', description = js ''LOTE''\<rparr>,
      \<lparr>code = js ''21'', value = js ''X'', name = js ''Serial number'', description = js ''SERIAL''\<rparr>]"
  using getParsedDataMatrix_limit [of "js '']d210AB+21X''"]
  unfolding limit_witness_rest limit_witness_fields by simp

section \<open>The documented example\<close>

lemma readme_example_type:
  "detectType (js '']d20112345678901234101725010110ABC123+'') = Some (js ''DataMatrix'')"
  by code_simp

lemma readme_example_tokens:
  "getParsedDataMatrix (js '']d20112345678901234101725010110ABC123+'') =
     Inr [\<lparr>code = js ''01'', value = js ''12345678901234'',
           name = js ''Global Trade Item Number'', description = js ''GTIN''\<rparr>,
          \<lparr>code = js ''10'', value = js ''1725010110ABC123'',
           name = js ''Batch or lot number'', description = js ''LOTE''\<rparr>]"
  by code_simp

lemma readme_example_assembled:
  "createCodeDataMatrix
     [\<lparr>code = js ''01'', value = js ''12345678901234'',
       name = js ''Global Trade Item Number'', description = js ''GTIN''\<rparr>,
      \<lparr>code = js ''10'', value = js ''1725010110ABC123'',
       name = js ''Batch or lot number'', description = js ''LOTE''\<rparr>] =
     [\<lparr>code = js ''01'', value = js ''12345678901234'',
       name = js ''Global Trade Item Number'', description = js ''GTIN''\<rparr>,
      \<lparr>code = js ''10'', value = js ''1725010110ABC123'',
       name = js ''Batch or lot number'', description = js ''LOTE''\<rparr>]"
  by code_simp

text \<open>
  Claim C1, evaluated on the code: for the input of the README, \<open>detectType\<close>
  returns "DataMatrix", and the parse returns two fields, not the three of the README.
  After the 16 characters of the GTIN field the string goes on with "10", so the lot
  field, which runs to the separator, takes "1725010110ABC123".
\<close>

theorem readme_example_parse:
  "detectType (js '']d20112345678901234101725010110ABC123+'') = Some (js ''DataMatrix'') \<and>
   fst (getParsedCode st (js '']d20112345678901234101725010110ABC123+'')) =
     Inr (Parts
       [\<lparr>code = js ''01'', value = js ''12345678901234'',
         name = js ''Global Trade Item Number'', description = js ''GTIN''\<rparr>,
        \<lparr>code = js ''10'', value = js ''1725010110ABC123'',
         name = js ''Batch or lot number'', description = js ''LOTE''\<rparr>])"
  by (simp add: getParsedCode_def Let_def readme_example_type readme_example_tokens
      readme_example_assembled)

section \<open>Termination without the limit\<close>

lemma unbounded_loop_limit:
  assumes "progress body"
  shows "(after_loop (while_loop body s [] 0) = Inl (Error (js ''Maximum iteration limit reached.'')))
     = (\<exists>fs. unbounded_loop body s [] = Some fs \<and> 1000 \<le> length fs)"
proof -
  have u: "unbounded_loop body s [] = Some (fields_upto body (length s) s)"
    using unbounded_loop_fields [OF assms, of s "length s" "[]"] by simp
  have "(rest_upto body 999 s = []) = (length (fields_upto body (length s) s) \<le> 999)"
    using rest_upto_fields [OF assms, of s "length s" 999] by simp
  then show ?thesis
    unfolding after_loop_upto maxIterations_pred u by auto
qed

text \<open>
  Claim C9: on a string that is not empty, the body of either loop computes a span of at
  least one character and leaves a shorter string; so the loop without the iteration limit
  returns on every string, and the limit error is raised exactly for the payloads that
  this loop splits into 1000 fields or more.
\<close>

theorem tokenizer_progress:
  "(s \<noteq> [] \<longrightarrow>
      1 \<le> fst (snd (getParsedDataMatrix_step s)) \<and>
      length (snd (snd (getParsedDataMatrix_step s))) < length s) \<and>
   (s \<noteq> [] \<longrightarrow>
      1 \<le> fst (snd (parseDataMatrix_step s)) \<and>
      length (snd (snd (parseDataMatrix_step s))) < length s) \<and>
   (\<exists>fs. unbounded_loop getParsedDataMatrix_step s [] = Some fs) \<and>
   (\<exists>fs. unbounded_loop parseDataMatrix_step s [] = Some fs) \<and>
   ((getParsedDataMatrix code0 = Inl (Error (js ''Maximum iteration limit reached.''))) =
      (\<exists>fs. unbounded_loop getParsedDataMatrix_step (slice1 code0 3) [] = Some fs \<and>
            1000 \<le> length fs)) \<and>
   ((parseDataMatrix code0 = Inl (Error (js ''Maximum iteration limit reached.''))) =
      (\<exists>fs. unbounded_loop parseDataMatrix_step (slice1 code0 3) [] = Some fs \<and>
            1000 \<le> length fs))"
proof (intro conjI impI)
  assume "s \<noteq> []"
  then show "1 \<le> fst (snd (getParsedDataMatrix_step s))"
    by (rule getParsedDataMatrix_step_len)
next
  assume "s \<noteq> []"
  then show "length (snd (snd (getParsedDataMatrix_step s))) < length s"
    using progress_getParsedDataMatrix_step by (simp add: progress_def)
next
  assume "s \<noteq> []"
  then show "1 \<le> fst (snd (parseDataMatrix_step s))"
    by (rule parseDataMatrix_step_len)
next
  assume "s \<noteq> []"
  then show "length (snd (snd (parseDataMatrix_step s))) < length s"
    using progress_parseDataMatrix_step by (simp add: progress_def)
next
  show "\<exists>fs. unbounded_loop getParsedDataMatrix_step s [] = Some fs"
    using unbounded_loop_fields [OF progress_getParsedDataMatrix_step, of s "length s" "[]"]
    by simp
next
  show "\<exists>fs. unbounded_loop parseDataMatrix_step s [] = Some fs"
    using unbounded_loop_fields [OF progress_parseDataMatrix_step, of s "length s" "[]"]
    by simp
next
  show "(getParsedDataMatrix code0 = Inl (Error (js ''Maximum iteration limit reached.''))) =
      (\<exists>fs. unbounded_loop getParsedDataMatrix_step (slice1 code0 3) [] = Some fs \<and>
            1000 \<le> length fs)"
    unfolding getParsedDataMatrix_def
    by (rule unbounded_loop_limit [OF progress_getParsedDataMatrix_step])
next
  show "(parseDataMatrix code0 = Inl (Error (js ''Maximum iteration limit reached.''))) =
      (\<exists>fs. unbounded_loop parseDataMatrix_step (slice1 code0 3) [] = Some fs \<and>
            1000 \<le> length fs)"
    unfolding parseDataMatrix_def
    by (rule unbounded_loop_limit [OF progress_parseDataMatrix_step])
qed

theorem tokenizer_progress_witness:
  "js ''0112+'' \<noteq> [] \<and>
   1 \<le> fst (snd (getParsedDataMatrix_step (js ''0112+''))) \<and>
   length (snd (snd (getParsedDataMatrix_step (js ''0112+'')))) < length (js ''0112+'') \<and>
   1 \<le> fst (snd (parseDataMatrix_step (js ''0112+''))) \<and>
   length (snd (snd (parseDataMatrix_step (js ''0112+'')))) < length (js ''0112+'') \<and>
   (\<exists>fs. unbounded_loop getParsedDataMatrix_step (js ''0112+'') [] = Some fs) \<and>
   (\<exists>fs. unbounded_loop parseDataMatrix_step (js ''0112+'') [] = Some fs)"
  using tokenizer_progress [of "js ''0112+''" "[]"] by simp

section \<open>The two tokenizers compared\<close>

lemma example_parseDataMatrix:
  "parseDataMatrix (js '']d20112345678901234101725010110ABC123+'') =
     Inr [\<lparr>code = js ''01'', value = js ''123456789012341'',
           name = js ''Global Trade Item Number'', description = js ''GTIN''\<rparr>,
          \<lparr>code = js ''01'', value = js ''725010110ABC123'',
           name = js ''Global Trade Item Number'', description = js ''GTIN''\<rparr>,
          \<lparr>code = js ''+'', value = [], name = js ''Unknown'', description = js ''Unknown''\<rparr>]"
  by code_simp

text \<open>
  Claim C10, evaluated on the code: the two tokenizers differ on the input of the README.
  \<open>parseDataMatrix\<close> adds one to the span also when the span is a fixed length, so
  its GTIN field takes 17 characters where \<open>getParsedDataMatrix\<close> takes the 16 of
  the table.
\<close>

theorem tokenizers_differ:
  "parseDataMatrix (js '']d20112345678901234101725010110ABC123+'') =
     Inr [\<lparr>code = js ''01'', value = js ''123456789012341'',
           name = js ''Global Trade Item Number'', description = js ''GTIN''\<rparr>,
          \<lparr>code = js ''01'', value = js ''725010110ABC123'',
           name = js ''Global Trade Item Number'', description = js ''GTIN''\<rparr>,
          \<lparr>code = js ''+'', value = [], name = js ''Unknown'', description = js ''Unknown''\<rparr>] \<and>
   getParsedDataMatrix (js '']d20112345678901234101725010110ABC123+'') =
     Inr [\<lparr>code = js ''01'', value = js ''12345678901234'',
           name = js ''Global Trade Item Number'', description = js ''GTIN''\<rparr>,
          \<lparr>code = js ''10'', value = js ''1725010110ABC123'',
           name = js ''Batch or lot number'', description = js ''LOTE''\<rparr>] \<and>
   parseDataMatrix (js '']d20112345678901234101725010110ABC123+'') \<noteq>
     getParsedDataMatrix (js '']d20112345678901234101725010110ABC123+'')"
  by (simp add: example_parseDataMatrix readme_example_tokens)

section \<open>Detection order\<close>

lemma startsWith_prefix: "startsWith s p = prefix p s"
proof
  assume "startsWith s p"
  then have "s = p @ drop (length p) s"
    by (metis startsWith_def append_take_drop_id)
  then show "prefix p s" by (metis prefixI)
next
  assume "prefix p s"
  then show "startsWith s p" by (auto simp add: startsWith_def prefix_def)
qed

lemma slice_0_3: "slice x 0 3 = take 3 x"
  by (simp add: slice_nonneg)

lemma take_is_marker: "length m = n \<Longrightarrow> (take n x = m) = prefix m (x::jsstring)"
  using startsWith_prefix [of x m] by (auto simp add: startsWith_def)

lemma isValidDataMatrix_prefix:
  "isValidDataMatrix x = (\<exists>m\<in>set DATAMATRIX_FNC1. prefix m x)"
  by (simp add: isValidDataMatrix_def slice_0_3 DATAMATRIX_FNC1_def
      take_is_marker [of _ 3, symmetric])

text \<open>
  Claim C7: \<open>detectType\<close> tries the EAN-13 check, the EAN-14 check, the DataMatrix
  markers and the QR prefix in this order and returns the kind of the first that holds,
  or nothing; a marker matches exactly when it is a prefix of the input.
\<close>

theorem detectType_order:
  "detectType x =
     (if isValidEan13 x then Some (js ''EAN-13'')
      else if isValidEan14 x then Some (js ''EAN-14'')
      else if \<exists>m\<in>set DATAMATRIX_FNC1. prefix m x then Some (js ''DataMatrix'')
      else if prefix (js '']Q'') x then Some (js ''QR'')
      else None)"
  by (simp add: detectType_def isValidDataMatrix_prefix startsWith_prefix)

lemma detectType_witness_facts:
  "isValidEan13 (js '']Q1hello'') = False" "isValidEan14 (js '']Q1hello'') = False"
  by code_simp+

theorem detectType_order_witness:
  "\<not> isValidEan13 (js '']Q1hello'') \<and> \<not> isValidEan14 (js '']Q1hello'') \<and>
   \<not> (\<exists>m\<in>set DATAMATRIX_FNC1. prefix m (js '']Q1hello'')) \<and> prefix (js '']Q'') (js '']Q1hello'') \<and>
   detectType (js '']Q1hello'') = Some (js ''QR'')"
  using detectType_order [of "js '']Q1hello''"]
  by (simp add: detectType_witness_facts DATAMATRIX_FNC1_def)

section \<open>Blank input\<close>

lemma trim_empty: "(trim s = []) = (\<forall>c\<in>set s. isWhiteSpace c)"
proof
  assume "\<forall>c\<in>set s. isWhiteSpace c"
  then have "dropWhile isWhiteSpace s = []" by (simp only: dropWhile_eq_Nil_conv)
  then show "trim s = []" by (simp add: trim_def del: dropWhile_eq_Nil_conv)
next
  assume t: "trim s = []"
  show "\<forall>c\<in>set s. isWhiteSpace c"
  proof (rule ccontr)
    assume "\<not> (\<forall>c\<in>set s. isWhiteSpace c)"
    then have ne: "dropWhile isWhiteSpace s \<noteq> []" by (simp add: dropWhile_eq_Nil_conv)
    then have "\<not> isWhiteSpace (hd (dropWhile isWhiteSpace s))" by (rule hd_dropWhile)
    moreover have "hd (dropWhile isWhiteSpace s) \<in> set (rev (dropWhile isWhiteSpace s))"
      using ne by simp
    ultimately have "dropWhile isWhiteSpace (rev (dropWhile isWhiteSpace s)) \<noteq> []"
      by (auto simp add: dropWhile_eq_Nil_conv)
    with t show False by (simp add: trim_def)
  qed
qed

text \<open>
  Claim C8: on an input that is empty or all white space, \<open>handleInput\<close> rejects
  its promise with the message of invalid input before anything else happens: no buffer
  is stored, no timer is scheduled and no result is produced. White space is all that
  \<open>trim\<close> removes, in the whole range of 16-bit code units.
\<close>

theorem handleInput_rejects_blank:
  "\<forall>c\<in>set newInput. isWhiteSpace c \<Longrightarrow>
     handleInput st newInput = (Some (Rejected (js ''Input inv'' @ [0xE1] @ js ''lido'')), st)"
  by (simp add: handleInput_def trim_empty)

theorem handleInput_rejects_blank_witness:
  "list_all isWhiteSpace [0x2003, 0x0020, 0xFEFF] \<and>
   handleInput \<lparr>parsedResult = Null, buffer = [], bufferTimeout = False, isQr = False\<rparr>
       [0x2003, 0x0020, 0xFEFF] =
     (Some (Rejected (js ''Input inv'' @ [0xE1] @ js ''lido'')),
      \<lparr>parsedResult = Null, buffer = [], bufferTimeout = False, isQr = False\<rparr>)"
proof -
  have b: "\<forall>c\<in>set [0x2003, 0x0020, 0xFEFF]. isWhiteSpace c"
    by (simp add: isWhiteSpace_def)
  from handleInput_rejects_blank [OF b] b show ?thesis by (simp add: list_all_iff)
qed

section \<open>The check digit\<close>

lemma smod_nonneg: "0 \<le> a \<Longrightarrow> 0 < b \<Longrightarrow> a smod b = a mod (b::int)"
  by (cases "a = 0") (simp_all add: smod_int_alt_def)

lemma parseInt_digit: "isDigit c \<Longrightarrow> parseInt (Some c) = Num (digit_value c)"
  by (simp add: parseInt_def digit_value_def)

lemma parseInt_nondigit: "\<not> isDigit c \<Longrightarrow> parseInt (Some c) = NaN"
  by (simp add: parseInt_def)

lemma digit_value_range: "isDigit c \<Longrightarrow> 0 \<le> digit_value c \<and> digit_value c \<le> 9"
  by (auto simp add: isDigit_def digit_value_def)

lemma num_add_NaN [simp]: "num_add x NaN = NaN"
  by (cases x) simp_all

lemma num_mul_NaN [simp]: "num_mul NaN x = NaN"
  by simp

lemma loop_NaN: "calculateCheckDigit_loop str i NaN = NaN"
proof (induction "length str - i" arbitrary: i)
  case 0
  then show ?case by (subst calculateCheckDigit_loop.simps) simp
next
  case (Suc n)
  then have "n = length str - (i + 1)" by simp
  from Suc.hyps(1) [OF this] show ?case
    by (subst calculateCheckDigit_loop.simps) simp
qed

lemma loop_digits:
  "\<forall>c\<in>set (drop i str). isDigit c \<Longrightarrow>
     calculateCheckDigit_loop str i (Num a) = Num (a + spec_weighted_sum_from i (drop i str))"
proof (induction "length str - i" arbitrary: i a)
  case 0
  then show ?case
    by (subst calculateCheckDigit_loop.simps) (simp add: spec_weighted_sum_from_def)
next
  case (Suc n)
  then have lt: "i < length str" and n: "n = length str - (i + 1)" by simp_all
  from lt have d: "drop i str = str ! i # drop (i + 1) str"
    by (simp add: Cons_nth_drop_Suc)
  with Suc.prems have dig: "isDigit (str ! i)" and rest: "\<forall>c\<in>set (drop (i + 1) str). isDigit c"
    by simp_all
  have w: "(if i mod 2 = 0 then 1 else 3) = spec_weight i"
    by (simp add: spec_weight_def even_iff_mod_2_eq_zero)
  have "calculateCheckDigit_loop str i (Num a) =
          calculateCheckDigit_loop str (i + 1) (Num (a + digit_value (str ! i) * spec_weight i))"
    using lt dig
    by (subst calculateCheckDigit_loop.simps) (simp add: index_def parseInt_digit w)
  also have "\<dots> = Num (a + digit_value (str ! i) * spec_weight i
                      + spec_weighted_sum_from (i + 1) (drop (i + 1) str))"
    by (rule Suc.hyps(1) [OF n rest])
  also have "\<dots> = Num (a + spec_weighted_sum_from i (drop i str))"
    unfolding d by (simp add: spec_weighted_sum_from_def)
  finally show ?case .
qed

lemma loop_nondigit:
  "\<exists>c\<in>set (drop i str). \<not> isDigit c \<Longrightarrow> calculateCheckDigit_loop str i x = NaN"
proof (induction "length str - i" arbitrary: i x)
  case 0
  then show ?case by simp
next
  case (Suc n)
  then have lt: "i < length str" and n: "n = length str - (i + 1)" by simp_all
  from lt have d: "drop i str = str ! i # drop (i + 1) str"
    by (simp add: Cons_nth_drop_Suc)
  show ?case
  proof (cases "isDigit (str ! i)")
    case False
    then show ?thesis using lt
      by (subst calculateCheckDigit_loop.simps) (simp add: index_def parseInt_nondigit loop_NaN)
  next
    case True
    with Suc.prems d have "\<exists>c\<in>set (drop (i + 1) str). \<not> isDigit c" by auto
    from Suc.hyps(1) [OF n this] lt show ?thesis
      by (subst calculateCheckDigit_loop.simps) simp
  qed
qed

lemma spec_weighted_sum_nonneg:
  "\<forall>c\<in>set d. isDigit c \<Longrightarrow> 0 \<le> spec_weighted_sum_from i d"
proof (induction d arbitrary: i)
  case Nil
  then show ?case by (simp add: spec_weighted_sum_from_def)
next
  case (Cons c d)
  then have "0 \<le> spec_weighted_sum_from (Suc i) d" by simp
  moreover have "0 \<le> digit_value c * spec_weight i"
    using Cons.prems digit_value_range [of c] by (simp add: spec_weight_def)
  ultimately show ?case by (simp add: spec_weighted_sum_from_def)
qed

lemma calculateCheckDigit_digits:
  assumes "\<forall>c\<in>set d. isDigit c"
  shows "calculateCheckDigit d = Num (spec_check_digit d)"
proof -
  have l: "calculateCheckDigit_loop d 0 (Num 0) = Num (spec_weighted_sum_from 0 d)"
    using loop_digits [of 0 d 0] assms by simp
  have nn: "0 \<le> spec_weighted_sum_from 0 d"
    using assms by (rule spec_weighted_sum_nonneg)
  have "0 \<le> 10 - spec_weighted_sum_from 0 d mod 10"
    using pos_mod_bound [of 10 "spec_weighted_sum_from 0 d"] by simp
  with nn show ?thesis
    by (simp add: calculateCheckDigit_def l spec_check_digit_def smod_nonneg)
qed

lemma calculateCheckDigit_nondigit:
  "\<exists>c\<in>set d. \<not> isDigit c \<Longrightarrow> calculateCheckDigit d = NaN"
  using loop_nondigit [of 0 d "Num 0"] by (simp add: calculateCheckDigit_def)

text \<open>
  Claim C4: on a string of digits, \<open>calculateCheckDigit\<close> returns
  (10 - (S mod 10)) mod 10 for the weighted sum S of the digits, weights 1, 3, 1, 3, ...
  from index 0; the result is between 0 and 9, and it is 0 when S is a multiple of 10.
\<close>

theorem calculateCheckDigit_spec:
  "\<forall>c\<in>set d. isDigit c \<Longrightarrow>
     calculateCheckDigit d = Num ((10 - spec_weighted_sum_from 0 d mod 10) mod 10) \<and>
     0 \<le> (10 - spec_weighted_sum_from 0 d mod 10) mod 10 \<and>
     (10 - spec_weighted_sum_from 0 d mod 10) mod 10 \<le> 9 \<and>
     (spec_weighted_sum_from 0 d mod 10 = 0 \<longrightarrow> calculateCheckDigit d = Num 0)"
proof -
  assume a: "\<forall>c\<in>set d. isDigit c"
  have r: "0 \<le> (10 - spec_weighted_sum_from 0 d mod 10) mod 10 \<and>
      (10 - spec_weighted_sum_from 0 d mod 10) mod 10 < 10"
    by simp
  from calculateCheckDigit_digits [OF a] r show ?thesis
    by (auto simp add: spec_check_digit_def)
qed

lemma zero_example_sum: "spec_weighted_sum_from 0 (js ''000000000013'') = 10"
  by (simp add: spec_weighted_sum_from_def digit_value_def spec_weight_def js_simps)

theorem calculateCheckDigit_spec_witness:
  "list_all isDigit (js ''000000000013'') \<and>
   spec_weighted_sum_from 0 (js ''000000000013'') mod 10 = 0 \<and>
   calculateCheckDigit (js ''000000000013'') = Num 0"
proof -
  have d: "\<forall>c\<in>set (js ''000000000013''). isDigit c" by (simp add: isDigit_def js_simps)
  from calculateCheckDigit_spec [OF d] d show ?thesis
    by (simp add: zero_example_sum list_all_iff)
qed

section \<open>EAN-13 validation\<close>

lemma digit_char_digit:
  "0 \<le> k \<Longrightarrow> k \<le> 9 \<Longrightarrow> isDigit (digit_char k) \<and> digit_value (digit_char k) = k"
proof -
  assume k: "0 \<le> k" "k \<le> 9"
  then have "(48 + k) mod 65536 = 48 + k" by simp
  then have "uint (word_of_int (48 + k) :: code_unit) = 48 + k"
    by (simp only: uint_word_of_int) simp
  with k show ?thesis
    by (simp only: digit_char_def isDigit_def digit_value_def) simp
qed

lemma digit_value_inj:
  "isDigit c \<Longrightarrow> isDigit c' \<Longrightarrow> digit_value c = digit_value c' \<Longrightarrow> c = c'"
proof -
  assume "digit_value c = digit_value c'"
  then have "uint c = uint c'" by (simp add: digit_value_def)
  then show "c = c'" by (simp only: word_uint_eq_iff)
qed

lemma isValidEan13_unfold:
  "isValidEan13 x =
     (take 3 x = js '']E0'' \<and> length (drop 3 x) = 13 \<and>
      strict_eq (calculateCheckDigit (take 12 (drop 3 x))) (parseInt (Some (drop 3 x ! 12))))"
  by (auto simp add: isValidEan13_def slice_nonneg slice1_nonneg EAN_FNC1_def Let_def index_def)

lemma strict_eq_Num: "strict_eq a b = (\<exists>k. a = Num k \<and> b = Num k)"
  by (cases a; cases b) auto

lemma check_Num_digits:
  "calculateCheckDigit d = Num k \<Longrightarrow> (\<forall>c\<in>set d. isDigit c) \<and> k = spec_check_digit d"
proof -
  assume a: "calculateCheckDigit d = Num k"
  have all: "\<forall>c\<in>set d. isDigit c"
  proof (rule ccontr)
    assume "\<not> (\<forall>c\<in>set d. isDigit c)"
    then have "calculateCheckDigit d = NaN" by (simp add: calculateCheckDigit_nondigit)
    with a show False by simp
  qed
  with a show ?thesis by (simp add: calculateCheckDigit_digits)
qed

lemma parseInt_Num: "parseInt (Some c) = Num k \<Longrightarrow> isDigit c \<and> k = digit_value c"
  by (cases "isDigit c") (simp_all add: parseInt_digit parseInt_nondigit)

lemma isValidEan13_payload:
  "isValidEan13 (js '']E0'' @ d) =
     (length d = 13 \<and> (\<forall>c\<in>set d. isDigit c) \<and>
      digit_value (d ! 12) = spec_check_digit (take 12 d))"
proof (cases "length d = 13")
  case False
  then show ?thesis by (simp add: isValidEan13_unfold)
next
  case True
  then have d: "d = take 12 d @ [d ! 12]"
    by (metis Suc_eq_plus1 add_2_eq_Suc' lessI numeral_Bit0 numeral_Bit1 take_Suc_conv_app_nth take_all order_refl One_nat_def Suc_numeral add_One_commute semiring_norm(5) semiring_norm(8))
  have s: "set d = set (take 12 d) \<union> {d ! 12}"
    by (subst d) (simp del: One_nat_def)
  show ?thesis
  proof
    assume "isValidEan13 (js '']E0'' @ d)"
    then obtain k where c: "calculateCheckDigit (take 12 d) = Num k"
      and p: "parseInt (Some (d ! 12)) = Num k"
      by (auto simp add: isValidEan13_unfold strict_eq_Num)
    from check_Num_digits [OF c] parseInt_Num [OF p] True s
    show "length d = 13 \<and> (\<forall>c\<in>set d. isDigit c) \<and>
      digit_value (d ! 12) = spec_check_digit (take 12 d)" by auto
  next
    assume a: "length d = 13 \<and> (\<forall>c\<in>set d. isDigit c) \<and>
      digit_value (d ! 12) = spec_check_digit (take 12 d)"
    then have "\<forall>c\<in>set (take 12 d). isDigit c" and "isDigit (d ! 12)" using s by auto
    with a show "isValidEan13 (js '']E0'' @ d)"
      by (simp add: isValidEan13_unfold calculateCheckDigit_digits parseInt_digit)
  qed
qed

lemma isValidEan13_snoc:
  "isValidEan13 (y @ [c]) =
     (take 3 y = js '']E0'' \<and> length y = 15 \<and>
      strict_eq (calculateCheckDigit (drop 3 y)) (parseInt (Some c)))"
proof (cases "length y = 15")
  case True
  then show ?thesis by (simp add: isValidEan13_unfold nth_append)
next
  case False
  then have "length (drop 3 (y @ [c])) \<noteq> 13" by auto
  with False show ?thesis by (simp only: isValidEan13_unfold) simp
qed

lemma spec_check_digit_range: "0 \<le> spec_check_digit d \<and> spec_check_digit d \<le> 9"
proof -
  have "0 \<le> (10 - spec_weighted_sum_from 0 d mod 10) mod 10 \<and>
      (10 - spec_weighted_sum_from 0 d mod 10) mod 10 < 10"
    by simp
  then show ?thesis by (simp add: spec_check_digit_def)
qed

text \<open>
  Claim C3: \<open>isValidEan13\<close> holds exactly for the marker "]E0" followed by 13
  digits of which the last is the check digit of the first 12. So it holds for the marker,
  12 digits and their check digit, and it fails without the marker, with another length,
  with another last character, and with a last character that is no digit.
\<close>

theorem isValidEan13_iff:
  "(isValidEan13 x =
      (\<exists>d. x = js '']E0'' @ d \<and> length d = 13 \<and> (\<forall>c\<in>set d. isDigit c) \<and>
           digit_value (d ! 12) = spec_check_digit (take 12 d))) \<and>
   (length d12 = 12 \<and> (\<forall>c\<in>set d12. isDigit c) \<longrightarrow>
      isValidEan13 (js '']E0'' @ d12 @ [digit_char (spec_check_digit d12)])) \<and>
   (\<not> prefix (js '']E0'') x \<longrightarrow> \<not> isValidEan13 x) \<and>
   (length x \<noteq> 3 + 13 \<longrightarrow> \<not> isValidEan13 x) \<and>
   (isValidEan13 (y @ [c]) \<and> c' \<noteq> c \<longrightarrow> \<not> isValidEan13 (y @ [c'])) \<and>
   (x \<noteq> [] \<and> \<not> isDigit (last x) \<longrightarrow> \<not> isValidEan13 x)"
proof -
  have iff: "isValidEan13 x =
      (\<exists>d. x = js '']E0'' @ d \<and> length d = 13 \<and> (\<forall>c\<in>set d. isDigit c) \<and>
           digit_value (d ! 12) = spec_check_digit (take 12 d))" for x
  proof
    assume v: "isValidEan13 x"
    then have "take 3 x = js '']E0''" by (simp add: isValidEan13_unfold)
    then have x: "x = js '']E0'' @ drop 3 x" by (metis append_take_drop_id)
    have "isValidEan13 (js '']E0'' @ drop 3 x)" by (subst x [symmetric]) (rule v)
    then have p: "length (drop 3 x) = 13 \<and> (\<forall>c\<in>set (drop 3 x). isDigit c) \<and>
      digit_value (drop 3 x ! 12) = spec_check_digit (take 12 (drop 3 x))"
      by (rule isValidEan13_payload [THEN iffD1])
    from x p show "\<exists>d. x = js '']E0'' @ d \<and> length d = 13 \<and> (\<forall>c\<in>set d. isDigit c) \<and>
           digit_value (d ! 12) = spec_check_digit (take 12 d)" by blast
  next
    assume "\<exists>d. x = js '']E0'' @ d \<and> length d = 13 \<and> (\<forall>c\<in>set d. isDigit c) \<and>
           digit_value (d ! 12) = spec_check_digit (take 12 d)"
    then show "isValidEan13 x" by (auto simp only: isValidEan13_payload)
  qed
  have built: "isValidEan13 (js '']E0'' @ d12 @ [digit_char (spec_check_digit d12)])"
    if "length d12 = 12 \<and> (\<forall>c\<in>set d12. isDigit c)"
  proof -
    from digit_char_digit [of "spec_check_digit d12"] spec_check_digit_range [of d12]
    have "isDigit (digit_char (spec_check_digit d12))"
      and "digit_value (digit_char (spec_check_digit d12)) = spec_check_digit d12" by simp_all
    with that have "isValidEan13 ((js '']E0'' @ d12) @ [digit_char (spec_check_digit d12)])"
      by (subst isValidEan13_snoc) (simp add: calculateCheckDigit_digits parseInt_digit)
    then show ?thesis by simp
  qed
  have marker: "\<not> isValidEan13 x" if "\<not> prefix (js '']E0'') x"
    using that by (auto simp add: iff)
  have len: "\<not> isValidEan13 x" if "length x \<noteq> 3 + 13"
    using that by (auto simp add: iff)
  have lastd: "\<not> isValidEan13 x" if "x \<noteq> [] \<and> \<not> isDigit (last x)"
  proof
    assume "isValidEan13 x"
    then obtain d where d: "x = js '']E0'' @ d" "length d = 13" "\<forall>c\<in>set d. isDigit c"
      by (auto simp add: iff)
    then have "d \<noteq> []" by auto
    then have "last x = last d" "last d \<in> set d" using d(1) by simp_all
    with d(3) that show False by simp
  qed
  have tamper: "\<not> isValidEan13 (y @ [c'])" if t: "isValidEan13 (y @ [c]) \<and> c' \<noteq> c"
  proof
    assume v': "isValidEan13 (y @ [c'])"
    from t obtain k where k: "parseInt (Some c) = Num k"
      "calculateCheckDigit (drop 3 y) = Num k"
      by (auto simp add: isValidEan13_snoc strict_eq_Num)
    from v' k(2) have "parseInt (Some c') = Num k"
      by (auto simp add: isValidEan13_snoc strict_eq_Num)
    from parseInt_Num [OF this] parseInt_Num [OF k(1)] have "c' = c"
      by (simp add: digit_value_inj)
    with t show False by simp
  qed
  from iff [of x] built marker len tamper lastd show ?thesis by blast
qed

lemma example_digits: "\<forall>c\<in>set (js ''400638133393''). isDigit c"
  by (simp add: isDigit_def js_simps)

lemma example_valid: "isValidEan13 (js '']E04006381333931'')"
  by code_simp

theorem isValidEan13_iff_witness:
  "length (js ''400638133393'') = 12 \<and> list_all isDigit (js ''400638133393'') \<and>
   isValidEan13 (js '']E0'' @ js ''400638133393'' @ [digit_char (spec_check_digit (js ''400638133393''))]) \<and>
   isValidEan13 (js '']E0400638133393'' @ [0x31]) \<and> (0x32 :: code_unit) \<noteq> 0x31 \<and>
   \<not> isValidEan13 (js '']E0400638133393'' @ [0x32]) \<and>
   \<not> prefix (js '']E0'') (js ''4006381333931'') \<and> \<not> isValidEan13 (js ''4006381333931'')"
  using isValidEan13_iff [of "js ''4006381333931''" "js ''400638133393''" "js '']E0400638133393''"
      "0x31" "0x32"] example_digits example_valid
  by (simp add: list_all_iff js_simps)


section \<open>Fields of fixed length\<close>

lemma single_pass:
  "s \<noteq> [] \<Longrightarrow> snd (snd (body s)) = [] \<Longrightarrow>
     after_loop (while_loop body s [] 0) = Inr [fst (body s)]"
proof -
  assume a: "s \<noteq> []" "snd (snd (body s)) = []"
  have "rest_upto body (Suc n) s = [] \<and> fields_upto body (Suc n) s = [fst (body s)]" for n
    using a by simp
  from this [of 998] have "rest_upto body 999 s = []" and "fields_upto body 999 s = [fst (body s)]"
    by simp_all
  then show ?thesis
    unfolding after_loop_upto maxIterations_pred by simp
qed

lemma find_part_nonempty: "find_part s = Some p \<Longrightarrow> s \<noteq> []"
proof
  assume f: "find_part s = Some p" and "s = []"
  from find_part_Some [OF f] CODE_PARTS_facts [of p] \<open>s = []\<close> show False
    by (auto simp add: startsWith_def)
qed

text \<open>
  Claim C5: when the first table entry that starts the string has a fixed length, the
  computed span is that length, the string left is the string without its first
  \<open>length\<close> characters, and the value is what lies between the code and the span,
  less one "+" at its end. When the string is shorter than the length, the value is
  what is there, the string left is empty, the loop ends after this field, and a payload
  that consists of this field alone is returned, not refused.
\<close>

theorem fixed_length_field:
  assumes "find_part s = Some p" and "part_length p = Some l"
  shows "getParsedDataMatrix_step s =
           (\<lparr>code = part_code p,
             value = replace_trailing_plus (drop (length (part_code p)) (take (nat l) s)),
             name = part_name p, description = part_description p\<rparr>,
            l, drop (nat l) s) \<and>
         (l \<le> int (length s) \<longrightarrow> int (length s) - int (length (drop (nat l) s)) = l) \<and>
         (int (length s) < l \<longrightarrow>
            value (fst (getParsedDataMatrix_step s)) =
              replace_trailing_plus (drop (length (part_code p)) s) \<and>
            snd (snd (getParsedDataMatrix_step s)) = [] \<and>
            (iteration < maxIterations \<longrightarrow>
               while_loop getParsedDataMatrix_step s codeParts iteration =
                 ([], codeParts @ [fst (getParsedDataMatrix_step s)], iteration + 1)) \<and>
            (length m = 3 \<longrightarrow>
               getParsedDataMatrix (m @ s) = Inr [fst (getParsedDataMatrix_step s)]))"
proof -
  from find_part_Some [OF assms(1)] CODE_PARTS_facts [of p] assms(2)
  have l: "l = 8 \<or> l = 16" by simp
  then have l0: "0 \<le> l" by auto
  have st: "getParsedDataMatrix_step s =
           (\<lparr>code = part_code p,
             value = replace_trailing_plus (drop (length (part_code p)) (take (nat l) s)),
             name = part_name p, description = part_description p\<rparr>,
            l, drop (nat l) s)"
    using assms l0 by (simp add: getParsedDataMatrix_step_def Let_def slice_nonneg slice1_nonneg)
  have ex: "int (length s) - int (length (drop (nat l) s)) = l" if "l \<le> int (length s)"
    using that l0 by simp
  have short: "value (fst (getParsedDataMatrix_step s)) =
              replace_trailing_plus (drop (length (part_code p)) s) \<and>
            snd (snd (getParsedDataMatrix_step s)) = [] \<and>
            (iteration < maxIterations \<longrightarrow>
               while_loop getParsedDataMatrix_step s codeParts iteration =
                 ([], codeParts @ [fst (getParsedDataMatrix_step s)], iteration + 1)) \<and>
            (length m = 3 \<longrightarrow>
               getParsedDataMatrix (m @ s) = Inr [fst (getParsedDataMatrix_step s)])"
    if lt: "int (length s) < l"
  proof -
    from lt l0 have t: "take (nat l) s = s" and d: "drop (nat l) s = []" by simp_all
    have r: "snd (snd (getParsedDataMatrix_step s)) = []" by (simp add: st d)
    have "getParsedDataMatrix (m @ s) = Inr [fst (getParsedDataMatrix_step s)]" if "length m = 3"
      unfolding getParsedDataMatrix_def
      using that single_pass [where body = getParsedDataMatrix_step and s = s,
          OF find_part_nonempty [OF assms(1)] r]
      by (simp add: slice1_nonneg)
    moreover have "while_loop getParsedDataMatrix_step s codeParts iteration =
        ([], codeParts @ [fst (getParsedDataMatrix_step s)], iteration + 1)"
      if "iteration < maxIterations"
    proof -
      have "while_loop getParsedDataMatrix_step s codeParts iteration =
          while_loop getParsedDataMatrix_step [] (codeParts @ [fst (getParsedDataMatrix_step s)])
            (iteration + 1)"
        using that find_part_nonempty [OF assms(1)] r
        by (subst while_loop.simps) simp
      also have "\<dots> = ([], codeParts @ [fst (getParsedDataMatrix_step s)], iteration + 1)"
        by (subst while_loop.simps) simp
      finally show ?thesis .
    qed
    ultimately show ?thesis using r by (simp add: st t)
  qed
  from st ex short show ?thesis by blast
qed

lemma fixed_witness_find:
  "find_part (js ''0112+'') = Some \<lparr>part_name = js ''Global Trade Item Number'',
      part_description = js ''GTIN'', part_code = js ''01'', part_length = Some 16\<rparr>"
  "find_part (js ''17250101+10A'') = Some \<lparr>part_name = js ''Expiration date (YYMMDD)'',
      part_description = js ''FECHA DE CACUCIDAD'', part_code = js ''17'', part_length = Some 8\<rparr>"
  by code_simp+

theorem fixed_length_field_witness:
  "getParsedDataMatrix_step (js ''17250101+10A'') =
     (\<lparr>code = js ''17'', value = js ''250101'', name = js ''Expiration date (YYMMDD)'',
       description = js ''FECHA DE CACUCIDAD''\<rparr>, 8, js ''+10A'') \<and>
   getParsedDataMatrix_step (js ''0112+'') =
     (\<lparr>code = js ''01'', value = js ''12'', name = js ''Global Trade Item Number'',
       description = js ''GTIN''\<rparr>, 16, []) \<and>
   getParsedDataMatrix (js '']d2'' @ js ''0112+'') =
     Inr [\<lparr>code = js ''01'', value = js ''12'', name = js ''Global Trade Item Number'',
           description = js ''GTIN''\<rparr>]"
  using fixed_length_field [OF fixed_witness_find(2), of 8 0 "[]" "[]"]
    fixed_length_field [OF fixed_witness_find(1), of 16 0 "[]" "js '']d2''"]
  by (simp add: replace_trailing_plus_def js_simps)

section \<open>Fields with an unknown code\<close>







end
